theory Spec2Isabelle
  imports Main "HOL-Library.Word"
begin

section \<open>The TodoList contract (contracts/TodoList.sol)\<close>

subsection \<open>Data model\<close>

text \<open>
  An \<open>address\<close> is a 160-bit word. A \<open>uint256\<close> is a natural number; Solidity 0.8
  checks its arithmetic, so every \<open>++\<close> and \<open>--\<close> of the contract's storage counter is
  written with the bound it is checked against, and a failed check is the error
  \<open>Panic 0x11\<close>. \<open>block.timestamp\<close> is the argument \<open>now\<close> of the mutating functions,
  \<open>msg.sender\<close> the argument \<open>sender\<close>. A \<open>string\<close> is its list of bytes. A storage
  array is a list; \<open>push\<close> appends to it, and its length, which is also the id of the
  next task, is a natural number.
\<close>

type_synonym address = "160 word"

definition MAX_UINT256 :: nat where
  "MAX_UINT256 = 2 ^ 256 - 1"

text \<open>The struct \<open>Task\<close>; its field \<open>id\<close> is \<open>id_task\<close> here.\<close>

record Task =
  id_task :: nat
  content :: string
  completed :: bool
  createdAt :: nat
  completedAt :: nat

text \<open>The two storage mappings. A Solidity mapping has a value at every key.\<close>

record state =
  userTasks :: "address \<Rightarrow> Task list"
  taskCount :: "address \<Rightarrow> nat"

datatype event =
    TaskCreated address nat string nat
  | TaskCompleted address nat nat
  | TaskUncompleted address nat nat
  | TaskUpdated address nat string nat
  | TaskDeleted address nat nat

text \<open>
  A call that fails reverts: with the message of the \<open>require\<close> that failed, or with a
  panic code (\<open>0x11\<close> arithmetic overflow or underflow, \<open>0x32\<close> array index out of
  bounds).
\<close>

datatype error = Revert string | Panic nat

abbreviation TaskNotFound :: error where
  "TaskNotFound \<equiv> Revert ''Task does not exist''"

abbreviation ContentEmpty :: error where
  "ContentEmpty \<equiv> Revert ''Content cannot be empty''"

abbreviation ContentTooLong :: error where
  "ContentTooLong \<equiv> Revert ''Content too long (max 500 chars)''"

abbreviation AlreadyDeleted :: error where
  "AlreadyDeleted \<equiv> Revert ''Task already deleted''"

text \<open>The error kind \<open>InvalidContent\<close> of the specification: either of the two messages.\<close>

definition InvalidContent :: "error set" where
  "InvalidContent = {ContentEmpty, ContentTooLong}"

text \<open>The state of a freshly deployed contract.\<close>

definition init :: state where
  "init = \<lparr>userTasks = (\<lambda>_. []), taskCount = (\<lambda>_. 0)\<rparr>"

subsection \<open>Modifiers\<close>

text \<open>A modifier takes the function body (the \<open>_;\<close>) as its last argument.\<close>

definition validTaskId :: "state \<Rightarrow> address \<Rightarrow> nat \<Rightarrow> error + 'a \<Rightarrow> error + 'a" where
  "validTaskId s sender taskId body =
     (if taskId < length (userTasks s sender) then body else Inl TaskNotFound)"

definition nonEmptyContent :: "string \<Rightarrow> error + 'a \<Rightarrow> error + 'a" where
  "nonEmptyContent c body =
     (if \<not> length c > 0 then Inl ContentEmpty
      else if \<not> length c \<le> 500 then Inl ContentTooLong
      else body)"

subsection \<open>External functions\<close>

text \<open>Writing through the storage pointer \<open>userTasks[msg.sender][_taskId]\<close>.\<close>

definition setTask :: "state \<Rightarrow> address \<Rightarrow> nat \<Rightarrow> Task \<Rightarrow> state" where
  "setTask s sender taskId t =
     s\<lparr>userTasks := (userTasks s)(sender := (userTasks s sender)[taskId := t])\<rparr>"

definition createTask :: "state \<Rightarrow> address \<Rightarrow> nat \<Rightarrow> string \<Rightarrow> error + state \<times> event" where
  "createTask s sender now c =
     nonEmptyContent c
       (let taskId = length (userTasks s sender);
            s1 = s\<lparr>userTasks := (userTasks s)(sender := userTasks s sender @
                   [\<lparr>id_task = taskId, content = c, completed = False,
                     createdAt = now, completedAt = 0\<rparr>])\<rparr>
        in if taskCount s1 sender \<ge> MAX_UINT256 then Inl (Panic 0x11)
           else Inr (s1\<lparr>taskCount := (taskCount s1)(sender := taskCount s1 sender + 1)\<rparr>,
                     TaskCreated sender taskId c now))"

definition toggleTask :: "state \<Rightarrow> address \<Rightarrow> nat \<Rightarrow> nat \<Rightarrow> error + state \<times> event" where
  "toggleTask s sender now taskId =
     validTaskId s sender taskId
       (let task = userTasks s sender ! taskId;
            task1 = task\<lparr>completed := \<not> completed task\<rparr>
        in if completed task1
           then Inr (setTask s sender taskId (task1\<lparr>completedAt := now\<rparr>),
                     TaskCompleted sender taskId now)
           else Inr (setTask s sender taskId (task1\<lparr>completedAt := 0\<rparr>),
                     TaskUncompleted sender taskId now))"

definition updateTask :: "state \<Rightarrow> address \<Rightarrow> nat \<Rightarrow> nat \<Rightarrow> string \<Rightarrow> error + state \<times> event" where
  "updateTask s sender now taskId newContent =
     validTaskId s sender taskId
       (nonEmptyContent newContent
          (Inr (setTask s sender taskId ((userTasks s sender ! taskId)\<lparr>content := newContent\<rparr>),
                TaskUpdated sender taskId newContent now)))"

text \<open>
  \<open>deleteTask\<close> writes the slot and then decrements the counter; when the decrement
  panics the whole call reverts, and the slot written before it is lost with it.
\<close>

definition deleteTask :: "state \<Rightarrow> address \<Rightarrow> nat \<Rightarrow> nat \<Rightarrow> error + state \<times> event" where
  "deleteTask s sender now taskId =
     validTaskId s sender taskId
       (let task = userTasks s sender ! taskId
        in if \<not> length (content task) > 0 then Inl AlreadyDeleted
           else let s1 = setTask s sender taskId (task\<lparr>content := [], completed := True\<rparr>)
                in if taskCount s1 sender = 0 then Inl (Panic 0x11)
                   else Inr (s1\<lparr>taskCount := (taskCount s1)(sender := taskCount s1 sender - 1)\<rparr>,
                             TaskDeleted sender taskId now))"

subsection \<open>View functions\<close>

definition getTask :: "state \<Rightarrow> address \<Rightarrow> nat \<Rightarrow> error + Task" where
  "getTask s sender taskId =
     validTaskId s sender taskId (Inr (userTasks s sender ! taskId))"

definition getAllTasks :: "state \<Rightarrow> address \<Rightarrow> Task list" where
  "getAllTasks s sender = userTasks s sender"

definition getActiveTaskCount :: "state \<Rightarrow> address \<Rightarrow> nat" where
  "getActiveTaskCount s sender = taskCount s sender"

text \<open>
  The two filtered queries run the same pair of loops, each with its own condition:
  a first loop counts the tasks that satisfy it, a second loop copies them into a
  fresh memory array of that size. A fresh memory array holds zero-valued structs,
  and a write beyond its length panics with \<open>0x32\<close>. The counters of the loops never
  exceed the length of the array they run over.
\<close>

definition isCompleted :: "Task \<Rightarrow> bool" where
  "isCompleted t = (completed t \<and> length (content t) > 0)"

definition isPending :: "Task \<Rightarrow> bool" where
  "isPending t = (\<not> completed t \<and> length (content t) > 0)"

definition zeroTask :: Task where
  "zeroTask = \<lparr>id_task = 0, content = [], completed = False, createdAt = 0, completedAt = 0\<rparr>"

function countLoop :: "(Task \<Rightarrow> bool) \<Rightarrow> Task list \<Rightarrow> nat \<Rightarrow> nat \<Rightarrow> nat" where
  "countLoop cond allTasks i cnt =
     (if i < length allTasks
      then countLoop cond allTasks (i + 1) (if cond (allTasks ! i) then cnt + 1 else cnt)
      else cnt)"
  by pat_completeness auto
termination
  by (relation "measure (\<lambda>(cond, allTasks, i, cnt). length allTasks - i)") auto

declare countLoop.simps [simp del]

function copyLoop :: "(Task \<Rightarrow> bool) \<Rightarrow> Task list \<Rightarrow> nat \<Rightarrow> Task list \<Rightarrow> nat \<Rightarrow> error + Task list" where
  "copyLoop cond allTasks i out index =
     (if i < length allTasks
      then (if cond (allTasks ! i)
            then (if index < length out
                  then copyLoop cond allTasks (i + 1) (out[index := allTasks ! i]) (index + 1)
                  else Inl (Panic 0x32))
            else copyLoop cond allTasks (i + 1) out index)
      else Inr out)"
  by pat_completeness auto
termination
  by (relation "measure (\<lambda>(cond, allTasks, i, out, index). length allTasks - i)") auto

declare copyLoop.simps [simp del]

definition getCompletedTasks :: "state \<Rightarrow> address \<Rightarrow> error + Task list" where
  "getCompletedTasks s sender =
     (let allTasks = userTasks s sender;
          completedCount = countLoop isCompleted allTasks 0 0;
          completedTasks = replicate completedCount zeroTask
      in copyLoop isCompleted allTasks 0 completedTasks 0)"

definition getPendingTasks :: "state \<Rightarrow> address \<Rightarrow> error + Task list" where
  "getPendingTasks s sender =
     (let allTasks = userTasks s sender;
          pendingCount = countLoop isPending allTasks 0 0;
          pendingTasks = replicate pendingCount zeroTask
      in copyLoop isPending allTasks 0 pendingTasks 0)"

definition getTaskCountForUser :: "state \<Rightarrow> address \<Rightarrow> nat" where
  "getTaskCountForUser s user = taskCount s user"

subsection \<open>Transactions and call sequences\<close>

text \<open>
  A transaction is a call of one of the four mutating functions by a sender at a block
  timestamp. A call that reverts leaves the storage as it was; \<open>run\<close> applies a sequence
  of transactions, in order, to a state.
\<close>

datatype call = CreateTask string | ToggleTask nat | UpdateTask nat string | DeleteTask nat

fun invoke :: "state \<Rightarrow> address \<Rightarrow> nat \<Rightarrow> call \<Rightarrow> error + state \<times> event" where
  "invoke s sender now (CreateTask c) = createTask s sender now c"
| "invoke s sender now (ToggleTask i) = toggleTask s sender now i"
| "invoke s sender now (UpdateTask i c) = updateTask s sender now i c"
| "invoke s sender now (DeleteTask i) = deleteTask s sender now i"

fun transact :: "state \<Rightarrow> address \<times> nat \<times> call \<Rightarrow> state" where
  "transact s (sender, now, c) =
     (case invoke s sender now c of Inl e \<Rightarrow> s | Inr (s', ev) \<Rightarrow> s')"

definition run :: "state \<Rightarrow> (address \<times> nat \<times> call) list \<Rightarrow> state" where
  "run s txs = foldl transact s txs"

text \<open>
  Two readings of a call and of a sequence of transactions, used to state how ids
  relate to creation order: the \<open>_taskId\<close> argument of a call, if it has one, and the
  number of \<open>createTask\<close> calls of an owner that succeed when the sequence runs from
  a state.
\<close>

fun calledTaskId :: "call \<Rightarrow> nat option" where
  "calledTaskId (CreateTask c) = None"
| "calledTaskId (ToggleTask i) = Some i"
| "calledTaskId (UpdateTask i c) = Some i"
| "calledTaskId (DeleteTask i) = Some i"

fun creations :: "state \<Rightarrow> address \<Rightarrow> (address \<times> nat \<times> call) list \<Rightarrow> nat" where
  "creations s owner [] = 0"
| "creations s owner ((sender, now, cl) # txs) =
     (case cl of
        CreateTask c \<Rightarrow>
          (case createTask s sender now c of
             Inl e \<Rightarrow> 0
           | Inr r \<Rightarrow> if sender = owner then 1 else 0)
      | _ \<Rightarrow> 0)
     + creations (transact s (sender, now, cl)) owner txs"

text \<open>
  A read-only call by \<open>sender\<close>, and what it returns. \<open>TaskCountGetter\<close> is the getter
  \<open>taskCount(address)\<close> that the declaration \<open>public\<close> of the mapping generates.
\<close>

datatype query = GetTask nat | GetAllTasks | GetActiveTaskCount
  | GetCompletedTasks | GetPendingTasks | GetTaskCountForUser address
  | TaskCountGetter address

datatype answer = ATask Task | ATasks "Task list" | ACount nat

fun ask :: "state \<Rightarrow> address \<Rightarrow> query \<Rightarrow> error + answer" where
  "ask s sender (GetTask i) = map_sum (\<lambda>e. e) ATask (getTask s sender i)"
| "ask s sender GetAllTasks = Inr (ATasks (getAllTasks s sender))"
| "ask s sender GetActiveTaskCount = Inr (ACount (getActiveTaskCount s sender))"
| "ask s sender GetCompletedTasks = map_sum (\<lambda>e. e) ATasks (getCompletedTasks s sender)"
| "ask s sender GetPendingTasks = map_sum (\<lambda>e. e) ATasks (getPendingTasks s sender)"
| "ask s sender (GetTaskCountForUser user) = Inr (ACount (getTaskCountForUser s user))"
| "ask s sender (TaskCountGetter user) = Inr (ACount (taskCount s user))"

section \<open>The two loops\<close>

lemma countLoop_filter:
  "countLoop cond xs i cnt = cnt + length (filter cond (drop i xs))"
proof (induction cond xs i cnt rule: countLoop.induct)
  case (1 cond allTasks i cnt)
  show ?case
  proof (cases "i < length allTasks")
    case True
    then have d: "drop i allTasks = allTasks ! i # drop (i + 1) allTasks"
      by (simp add: Cons_nth_drop_Suc)
    from True "1.IH" show ?thesis
      by (subst countLoop.simps) (simp add: d)
  next
    case False
    then show ?thesis by (subst countLoop.simps) simp
  qed
qed

lemma copyLoop_filter:
  "index + length (filter cond (drop i xs)) = length out \<Longrightarrow>
   copyLoop cond xs i out index = Inr (take index out @ filter cond (drop i xs))"
proof (induction cond xs i out index rule: copyLoop.induct)
  case (1 cond allTasks i out index)
  show ?case
  proof (cases "i < length allTasks")
    case False
    with "1.prems" show ?thesis by (subst copyLoop.simps) simp
  next
    case True
    then have d: "drop i allTasks = allTasks ! i # drop (i + 1) allTasks"
      by (simp add: Cons_nth_drop_Suc)
    show ?thesis
    proof (cases "cond (allTasks ! i)")
      case False
      with True "1.prems" "1.IH"(2) show ?thesis
        by (subst copyLoop.simps) (simp add: d)
    next
      case c: True
      with "1.prems" have lt: "index < length out" by (simp add: d)
      have "copyLoop cond allTasks (i + 1) (out[index := allTasks ! i]) (index + 1)
            = Inr (take (index + 1) (out[index := allTasks ! i])
                   @ filter cond (drop (i + 1) allTasks))"
        using "1.IH"(1) [OF True c lt] "1.prems" c by (simp add: d)
      moreover have "take (index + 1) (out[index := allTasks ! i])
            = take index out @ [allTasks ! i]"
        using lt by (simp add: take_Suc_conv_app_nth)
      ultimately show ?thesis
        using True c lt by (subst copyLoop.simps) (simp add: d)
    qed
  qed
qed

lemma getCompletedTasks_filter:
  "getCompletedTasks s sender = Inr (filter isCompleted (userTasks s sender))"
  by (simp add: getCompletedTasks_def Let_def countLoop_filter copyLoop_filter)

lemma getPendingTasks_filter:
  "getPendingTasks s sender = Inr (filter isPending (userTasks s sender))"
  by (simp add: getPendingTasks_def Let_def countLoop_filter copyLoop_filter)

section \<open>Task ids are positions\<close>

text \<open>
  No function writes the field \<open>id\<close> of a stored task, and \<open>createTask\<close> sets it to
  the length of the sequence it appends to: in every state the contract reaches, the
  ids of an owner's sequence are \<open>0, 1, ..., n - 1\<close> in this order.
\<close>

lemma map_update_same:
  assumes "f t = f (xs ! i)"
  shows "map f (xs[i := t]) = map f xs"
proof (cases "i < length xs")
  case True
  with assms have "(map f xs)[i := f t] = (map f xs)[i := map f xs ! i]" by simp
  then show ?thesis by (simp only: map_update list_update_id)
next
  case False
  then show ?thesis by (simp add: list_update_beyond)
qed

lemma length_setTask [simp]:
  "length (userTasks (setTask s a i t) b) = length (userTasks s b)"
  by (simp add: setTask_def)

lemma ids_setTask:
  "id_task t = id_task (userTasks s a ! i) \<Longrightarrow>
   map id_task (userTasks (setTask s a i t) b) = map id_task (userTasks s b)"
  by (simp add: setTask_def map_update_same)

lemma transact_ids:
  assumes "\<forall>a. map id_task (userTasks s a) = [0..<length (userTasks s a)]"
  shows "map id_task (userTasks (transact s tx) a) = [0..<length (userTasks (transact s tx) a)]"
proof -
  obtain sender now c where tx: "tx = (sender, now, c)" by (cases tx)
  show ?thesis
  proof (cases c)
    case (CreateTask x)
    with assms tx show ?thesis
      by (simp add: createTask_def nonEmptyContent_def Let_def)
  next
    case (ToggleTask i)
    with assms tx show ?thesis
      by (simp add: toggleTask_def validTaskId_def Let_def ids_setTask)
  next
    case (UpdateTask i x)
    with assms tx show ?thesis
      by (simp add: updateTask_def validTaskId_def nonEmptyContent_def ids_setTask)
  next
    case (DeleteTask i)
    with assms tx show ?thesis
      by (simp add: deleteTask_def validTaskId_def Let_def ids_setTask)
  qed
qed

lemma run_snoc: "run s (txs @ [tx]) = transact (run s txs) tx"
  by (simp add: run_def)

lemma run_ids:
  "map id_task (userTasks (run init txs) a) = [0..<length (userTasks (run init txs) a)]"
proof (induction txs arbitrary: a rule: rev_induct)
  case Nil
  show ?case by (simp add: run_def init_def)
next
  case (snoc tx txs)
  then show ?case unfolding run_snoc by (intro transact_ids) simp
qed

section \<open>Three short histories\<close>

text \<open>
  Owner \<open>1\<close> creates a task at time 1, deletes it at time 2 and updates the deleted
  slot at time 3. The states after each of these calls, computed from the definitions.
\<close>

lemmas call_defs = createTask_def toggleTask_def updateTask_def deleteTask_def
  validTaskId_def nonEmptyContent_def setTask_def Let_def

lemma run_create:
  "run init [(1, 1, CreateTask ''a'')]
   = \<lparr>userTasks = (\<lambda>_. [])(1 := [\<lparr>id_task = 0, content = ''a'', completed = False,
                        createdAt = 1, completedAt = 0\<rparr>]),
      taskCount = (\<lambda>_. 0)(1 := 1)\<rparr>"
  by (simp add: run_def init_def call_defs MAX_UINT256_def)

lemma run_create_delete:
  "run init [(1, 1, CreateTask ''a''), (1, 2, DeleteTask 0)]
   = \<lparr>userTasks = (\<lambda>_. [])(1 := [\<lparr>id_task = 0, content = '''', completed = True,
                        createdAt = 1, completedAt = 0\<rparr>]),
      taskCount = (\<lambda>_. 0)(1 := 0)\<rparr>"
  by (simp add: run_def init_def call_defs MAX_UINT256_def)

lemma run_create_delete_update:
  "run init [(1, 1, CreateTask ''a''), (1, 2, DeleteTask 0), (1, 3, UpdateTask 0 ''b'')]
   = \<lparr>userTasks = (\<lambda>_. [])(1 := [\<lparr>id_task = 0, content = ''b'', completed = True,
                        createdAt = 1, completedAt = 0\<rparr>]),
      taskCount = (\<lambda>_. 0)(1 := 0)\<rparr>"
  by (simp add: run_def init_def call_defs MAX_UINT256_def)

lemma run_create_create:
  "run init [(1, 1, CreateTask ''a''), (1, 5, CreateTask ''c'')]
   = \<lparr>userTasks = (\<lambda>_. [])(1 := [\<lparr>id_task = 0, content = ''a'', completed = False,
                        createdAt = 1, completedAt = 0\<rparr>,
                       \<lparr>id_task = 1, content = ''c'', completed = False,
                        createdAt = 5, completedAt = 0\<rparr>]),
      taskCount = (\<lambda>_. 0)(1 := Suc (Suc 0))\<rparr>"
  by (simp add: run_def init_def call_defs MAX_UINT256_def)

lemma run_two_delete:
  "run init [(1, 1, CreateTask ''a''), (1, 5, CreateTask ''c''), (1, 6, DeleteTask 0)]
   = \<lparr>userTasks = (\<lambda>_. [])(1 := [\<lparr>id_task = 0, content = '''', completed = True,
                        createdAt = 1, completedAt = 0\<rparr>,
                       \<lparr>id_task = 1, content = ''c'', completed = False,
                        createdAt = 5, completedAt = 0\<rparr>]),
      taskCount = (\<lambda>_. 0)(1 := Suc 0)\<rparr>"
  by (simp add: run_def init_def call_defs MAX_UINT256_def)

section \<open>Sequences only grow\<close>

lemma transact_length_mono:
  "length (userTasks s a) \<le> length (userTasks (transact s tx) a)"
proof -
  obtain sender now c where tx: "tx = (sender, now, c)" by (cases tx)
  show ?thesis unfolding tx by (cases c) (simp_all add: call_defs)
qed

lemma run_append: "run s (txs @ later) = run (run s txs) later"
  by (simp add: run_def)

lemma run_length_mono:
  "length (userTasks s a) \<le> length (userTasks (run s txs) a)"
proof (induction txs rule: rev_induct)
  case Nil
  show ?case by (simp add: run_def)
next
  case (snoc tx txs)
  have "length (userTasks (run s txs) a) \<le> length (userTasks (transact (run s txs) tx) a)"
    by (rule transact_length_mono)
  with snoc show ?case unfolding run_snoc by (rule le_trans)
qed

lemma run_id_nth:
  assumes "i < length (userTasks (run init txs) a)"
  shows "id_task (userTasks (run init txs) a ! i) = i"
proof -
  from assms have "id_task (userTasks (run init txs) a ! i)
      = map id_task (userTasks (run init txs) a) ! i"
    by simp
  also have "\<dots> = [0..<length (userTasks (run init txs) a)] ! i"
    by (simp only: run_ids)
  also from assms have "\<dots> = i" by simp
  finally show ?thesis .
qed

lemma filter_ids:
  assumes "t \<in> set (filter P (userTasks (run init txs) a))"
  shows "id_task t < length (userTasks (run init txs) a)
     \<and> userTasks (run init txs) a ! id_task t = t \<and> P t"
proof -
  from assms have "t \<in> set (userTasks (run init txs) a)" and p: "P t" by simp_all
  then obtain j where j: "j < length (userTasks (run init txs) a)"
      and t: "userTasks (run init txs) a ! j = t"
    by (auto simp: in_set_conv_nth)
  from run_id_nth [OF j] t have "id_task t = j" by simp
  with j t p show ?thesis by simp
qed

lemma run_Cons: "run s (tx # txs) = run (transact s tx) txs"
  by (simp add: run_def)

lemma run_length_creations:
  "length (userTasks (run s txs) b) = length (userTasks s b) + creations s b txs"
proof (induction txs arbitrary: s)
  case Nil
  show ?case by (simp add: run_def)
next
  case (Cons tx txs)
  obtain sender now cl where tx: "tx = (sender, now, cl)" by (cases tx)
  have "length (userTasks (transact s (sender, now, cl)) b)
      = length (userTasks s b)
        + (case cl of
             CreateTask c \<Rightarrow>
               (case createTask s sender now c of
                  Inl e \<Rightarrow> 0
                | Inr r \<Rightarrow> if sender = b then 1 else 0)
           | _ \<Rightarrow> 0)"
    by (cases cl) (auto simp: call_defs)
  with Cons [of "transact s (sender, now, cl)"] show ?case
    unfolding tx run_Cons by simp
qed


lemma transact_slot_frame:
  assumes "i < length (userTasks s b)"
  shows "i < length (userTasks (transact s (sender, now, cl)) b)
     \<and> id_task (userTasks (transact s (sender, now, cl)) b ! i) = id_task (userTasks s b ! i)
     \<and> createdAt (userTasks (transact s (sender, now, cl)) b ! i) = createdAt (userTasks s b ! i)
     \<and> (sender \<noteq> b \<or> calledTaskId cl \<noteq> Some i \<longrightarrow>
          userTasks (transact s (sender, now, cl)) b ! i = userTasks s b ! i)"
  using assms
  by (cases cl) (auto simp: call_defs nth_append nth_list_update)

lemma transact_length:
  "length (userTasks (transact s (sender, now, cl)) b)
     = (if sender = b \<and> calledTaskId cl = None \<and> (\<exists>r. invoke s sender now cl = Inr r)
        then Suc (length (userTasks s b)) else length (userTasks s b))"
  by (cases cl) (auto simp: call_defs)

lemma run_slot_frame:
  "i < length (userTasks s b) \<Longrightarrow>
   i < length (userTasks (run s txs) b)
   \<and> id_task (userTasks (run s txs) b ! i) = id_task (userTasks s b ! i)
   \<and> createdAt (userTasks (run s txs) b ! i) = createdAt (userTasks s b ! i)"
proof (induction txs rule: rev_induct)
  case Nil
  then show ?case by (simp add: run_def)
next
  case (snoc tx txs)
  obtain sender now cl where tx: "tx = (sender, now, cl)" by (cases tx)
  from snoc have i: "i < length (userTasks (run s txs) b)" by simp
  from transact_slot_frame [OF i, of sender now cl] snoc show ?case
    unfolding run_snoc tx by simp
qed

section \<open>Calls read and write the caller's own storage\<close>

lemma transact_other:
  assumes "fst tx \<noteq> A"
  shows "userTasks (transact s tx) A = userTasks s A \<and> taskCount (transact s tx) A = taskCount s A"
proof -
  obtain sender now c where tx: "tx = (sender, now, c)" by (cases tx)
  with assms have ne: "sender \<noteq> A" by simp
  show ?thesis unfolding tx using ne by (cases c) (simp_all add: call_defs)
qed

lemma run_other:
  "\<forall>tx \<in> set txs. fst tx \<noteq> A \<Longrightarrow>
   userTasks (run s txs) A = userTasks s A \<and> taskCount (run s txs) A = taskCount s A"
proof (induction txs rule: rev_induct)
  case Nil
  show ?case by (simp add: run_def)
next
  case (snoc tx txs)
  then have "fst tx \<noteq> A" by simp
  from transact_other [OF this, of "run s txs"] snoc show ?case
    by (simp add: run_snoc)
qed

lemma transact_agree:
  assumes "userTasks s B = userTasks s' B" "taskCount s B = taskCount s' B"
  shows "userTasks (transact s tx) B = userTasks (transact s' tx) B
     \<and> taskCount (transact s tx) B = taskCount (transact s' tx) B"
proof -
  obtain sender now cl where tx: "tx = (sender, now, cl)" by (cases tx)
  show ?thesis
  proof (cases "sender = B")
    case True
    with assms show ?thesis unfolding tx by (cases cl) (simp_all add: call_defs)
  next
    case False
    then have "fst tx \<noteq> B" by (simp add: tx)
    from transact_other [OF this, of s] transact_other [OF this, of s'] assms
    show ?thesis by simp
  qed
qed

lemma run_agree:
  "userTasks s B = userTasks s' B \<Longrightarrow> taskCount s B = taskCount s' B \<Longrightarrow>
   userTasks (run s txs) B = userTasks (run s' txs) B
   \<and> taskCount (run s txs) B = taskCount (run s' txs) B"
proof (induction txs rule: rev_induct)
  case Nil
  then show ?case by (simp add: run_def)
next
  case (snoc tx txs)
  then have "userTasks (run s txs) B = userTasks (run s' txs) B"
    and "taskCount (run s txs) B = taskCount (run s' txs) B" by simp_all
  then show ?case unfolding run_snoc by (rule transact_agree)
qed

lemma invoke_own:
  assumes "userTasks s B = userTasks s' B" "taskCount s B = taskCount s' B"
  shows "map_sum (\<lambda>e. e) snd (invoke s B now cl) = map_sum (\<lambda>e. e) snd (invoke s' B now cl)"
  using assms by (cases cl) (simp_all add: call_defs)

lemma ask_own:
  assumes "userTasks s B = userTasks s' B" "taskCount s B = taskCount s' B"
    "\<forall>u. q \<noteq> GetTaskCountForUser u \<and> q \<noteq> TaskCountGetter u"
  shows "ask s B q = ask s' B q"
  using assms
  by (cases q)
     (simp_all add: getTask_def validTaskId_def getAllTasks_def getActiveTaskCount_def
        getCompletedTasks_filter getPendingTasks_filter)

section \<open>Filtered queries\<close>

text \<open>
  Claim C8. \<open>getCompletedTasks\<close> returns exactly the caller's tasks with
  \<open>completed = true\<close> and non-empty content, \<open>getPendingTasks\<close> exactly those with
  \<open>completed = false\<close> and non-empty content, both in the order of the caller's
  sequence; in every state reached from deployment by any sequence of transactions
  that order is the strictly ascending order of the ids.
\<close>

theorem filtered_queries_ascending:
  "getCompletedTasks s sender
     = Inr (filter (\<lambda>t. completed t = True \<and> content t \<noteq> '''') (userTasks s sender))
   \<and> getPendingTasks s sender
     = Inr (filter (\<lambda>t. completed t = False \<and> content t \<noteq> '''') (userTasks s sender))
   \<and> sorted_wrt (<) (map id_task
        (filter (\<lambda>t. completed t = True \<and> content t \<noteq> '''') (userTasks (run init txs) a)))
   \<and> sorted_wrt (<) (map id_task
        (filter (\<lambda>t. completed t = False \<and> content t \<noteq> '''') (userTasks (run init txs) a)))"
proof -
  have c: "isCompleted = (\<lambda>t. completed t = True \<and> content t \<noteq> '''')"
    by (rule ext) (simp add: isCompleted_def)
  have p: "isPending = (\<lambda>t. completed t = False \<and> content t \<noteq> '''')"
    by (rule ext) (simp add: isPending_def)
  have "sorted_wrt (<) (map id_task (userTasks (run init txs) a))"
    by (simp add: run_ids)
  then have o: "sorted_wrt (<) (map id_task (filter P (userTasks (run init txs) a)))" for P
    by (simp add: sorted_wrt_map sorted_wrt_filter)
  show ?thesis
    using getCompletedTasks_filter [of s sender] getPendingTasks_filter [of s sender]
      o [of "\<lambda>t. completed t = True \<and> content t \<noteq> ''''"]
      o [of "\<lambda>t. completed t = False \<and> content t \<noteq> ''''"]
    unfolding c p by blast
qed

section \<open>Errors\<close>

text \<open>
  Claim C7. \<open>toggleTask\<close>, \<open>updateTask\<close>, \<open>deleteTask\<close> and \<open>getTask\<close> fail with
  \<open>TaskNotFound\<close> exactly when the id is not below the length of the caller's sequence.
  The check looks at the index only: a slot in range whose content is empty passes it
  (\<open>toggleTask\<close> succeeds on it and \<open>getTask\<close> returns it). A mutating call that fails
  leaves the state as it was, and the same call made again, at any later time, fails
  with the same error.
\<close>

theorem task_not_found_and_atomic_failure:
  "(toggleTask s a now i = Inl TaskNotFound \<longleftrightarrow> \<not> i < length (userTasks s a))
   \<and> (updateTask s a now i c = Inl TaskNotFound \<longleftrightarrow> \<not> i < length (userTasks s a))
   \<and> (deleteTask s a now i = Inl TaskNotFound \<longleftrightarrow> \<not> i < length (userTasks s a))
   \<and> (getTask s a i = Inl TaskNotFound \<longleftrightarrow> \<not> i < length (userTasks s a))
   \<and> (i < length (userTasks s a) \<and> content (userTasks s a ! i) = '''' \<longrightarrow>
        validTaskId s a i body = body
        \<and> (\<exists>r. toggleTask s a now i = Inr r)
        \<and> getTask s a i = Inr (userTasks s a ! i))
   \<and> (invoke s a now cl = Inl e \<longrightarrow>
        transact s (a, now, cl) = s
        \<and> invoke (transact s (a, now, cl)) a now' cl = Inl e)"
proof -
  have t: "toggleTask s a now i = Inl TaskNotFound \<longleftrightarrow> \<not> i < length (userTasks s a)"
    by (simp add: toggleTask_def validTaskId_def Let_def)
  have u: "updateTask s a now i c = Inl TaskNotFound \<longleftrightarrow> \<not> i < length (userTasks s a)"
    by (simp add: updateTask_def validTaskId_def nonEmptyContent_def)
  have d: "deleteTask s a now i = Inl TaskNotFound \<longleftrightarrow> \<not> i < length (userTasks s a)"
    by (simp add: deleteTask_def validTaskId_def Let_def)
  have g: "getTask s a i = Inl TaskNotFound \<longleftrightarrow> \<not> i < length (userTasks s a)"
    by (simp add: getTask_def validTaskId_def)
  have p: "i < length (userTasks s a) \<and> content (userTasks s a ! i) = '''' \<longrightarrow>
        validTaskId s a i body = body
        \<and> (\<exists>r. toggleTask s a now i = Inr r)
        \<and> getTask s a i = Inr (userTasks s a ! i)"
    by (simp add: toggleTask_def getTask_def validTaskId_def Let_def)
  have f: "invoke s a now cl = Inl e \<longrightarrow>
        transact s (a, now, cl) = s
        \<and> invoke (transact s (a, now, cl)) a now' cl = Inl e"
    by (cases cl) (auto simp: call_defs split: if_splits)
  from t u d g p f show ?thesis by blast
qed

theorem task_not_found_and_atomic_failure_witness:
  "toggleTask init 1 7 5 = Inl TaskNotFound
   \<and> updateTask init 1 7 5 ''x'' = Inl TaskNotFound
   \<and> deleteTask init 1 7 5 = Inl TaskNotFound
   \<and> getTask init 1 5 = Inl TaskNotFound
   \<and> invoke init 1 7 (DeleteTask 5) = Inl TaskNotFound
   \<and> transact init (1, 7, DeleteTask 5) = init
   \<and> invoke (transact init (1, 7, DeleteTask 5)) 1 8 (DeleteTask 5) = Inl TaskNotFound
   \<and> (let s = run init [(1, 1, CreateTask ''a''), (1, 2, DeleteTask 0)]
       in 0 < length (userTasks s 1) \<and> content (userTasks s 1 ! 0) = ''''
          \<and> validTaskId s 1 0 (Inr ()) = Inr ()
          \<and> (\<exists>r. toggleTask s 1 3 0 = Inr r)
          \<and> getTask s 1 0 = Inr (userTasks s 1 ! 0))"
  using task_not_found_and_atomic_failure
          [of init 1 7 5 "''x''" "Inr ()" "DeleteTask 5" TaskNotFound 8]
        task_not_found_and_atomic_failure
          [of "run init [(1, 1, CreateTask ''a''), (1, 2, DeleteTask 0)]" 1 3 0 "''x''" "Inr ()"
              "DeleteTask 5" TaskNotFound 8]
  unfolding run_create_delete
  by (simp add: init_def)

section \<open>updateTask\<close>

text \<open>
  Claim C9. For an id within the caller's sequence, \<open>updateTask\<close> with new content of
  1 to 500 bytes succeeds and replaces the content of that task only: the task's id,
  completed flag and both timestamps, every other task of the caller, every other
  owner's sequence and all live counts are unchanged. New content that is empty or
  longer than 500 bytes fails with \<open>InvalidContent\<close>.
\<close>

theorem updateTask_replaces_content_only:
  assumes "i < length (userTasks s a)"
  shows "(1 \<le> length c \<and> length c \<le> 500 \<longrightarrow>
          (\<exists>s'. updateTask s a now i c = Inr (s', TaskUpdated a i c now)
             \<and> userTasks s' a = (userTasks s a)[i := (userTasks s a ! i)\<lparr>content := c\<rparr>]
             \<and> content (userTasks s' a ! i) = c
             \<and> id_task (userTasks s' a ! i) = id_task (userTasks s a ! i)
             \<and> completed (userTasks s' a ! i) = completed (userTasks s a ! i)
             \<and> createdAt (userTasks s' a ! i) = createdAt (userTasks s a ! i)
             \<and> completedAt (userTasks s' a ! i) = completedAt (userTasks s a ! i)
             \<and> length (userTasks s' a) = length (userTasks s a)
             \<and> (\<forall>j. j \<noteq> i \<longrightarrow> userTasks s' a ! j = userTasks s a ! j)
             \<and> (\<forall>b. b \<noteq> a \<longrightarrow> userTasks s' b = userTasks s b)
             \<and> taskCount s' = taskCount s))
       \<and> (length c = 0 \<or> 500 < length c \<longrightarrow>
            (\<exists>e \<in> InvalidContent. updateTask s a now i c = Inl e))"
proof -
  have ok: "1 \<le> length c \<and> length c \<le> 500 \<longrightarrow>
          (\<exists>s'. updateTask s a now i c = Inr (s', TaskUpdated a i c now)
             \<and> userTasks s' a = (userTasks s a)[i := (userTasks s a ! i)\<lparr>content := c\<rparr>]
             \<and> content (userTasks s' a ! i) = c
             \<and> id_task (userTasks s' a ! i) = id_task (userTasks s a ! i)
             \<and> completed (userTasks s' a ! i) = completed (userTasks s a ! i)
             \<and> createdAt (userTasks s' a ! i) = createdAt (userTasks s a ! i)
             \<and> completedAt (userTasks s' a ! i) = completedAt (userTasks s a ! i)
             \<and> length (userTasks s' a) = length (userTasks s a)
             \<and> (\<forall>j. j \<noteq> i \<longrightarrow> userTasks s' a ! j = userTasks s a ! j)
             \<and> (\<forall>b. b \<noteq> a \<longrightarrow> userTasks s' b = userTasks s b)
             \<and> taskCount s' = taskCount s)"
    using assms by (simp add: updateTask_def validTaskId_def nonEmptyContent_def setTask_def)
  have bad: "length c = 0 \<or> 500 < length c \<longrightarrow>
            (\<exists>e \<in> InvalidContent. updateTask s a now i c = Inl e)"
    using assms
    by (auto simp: updateTask_def validTaskId_def nonEmptyContent_def InvalidContent_def)
  from ok bad show ?thesis by blast
qed

theorem updateTask_replaces_content_only_witness:
  "(let s = run init [(1, 1, CreateTask ''a'')]
    in 0 < length (userTasks s 1)
       \<and> (\<exists>s'. updateTask s 1 2 0 ''b'' = Inr (s', TaskUpdated 1 0 ''b'' 2)
             \<and> userTasks s' 1 = [\<lparr>id_task = 0, content = ''b'', completed = False,
                                   createdAt = 1, completedAt = 0\<rparr>]
             \<and> taskCount s' = taskCount s)
       \<and> updateTask s 1 2 0 '''' = Inl ContentEmpty
       \<and> ContentEmpty \<in> InvalidContent)"
  using updateTask_replaces_content_only [of 0 "run init [(1, 1, CreateTask ''a'')]" 1 "''b''" 2]
        updateTask_replaces_content_only [of 0 "run init [(1, 1, CreateTask ''a'')]" 1 "''''" 2]
  unfolding run_create
  by (auto simp: InvalidContent_def call_defs)

section \<open>createTask\<close>

text \<open>
  Claim C4. \<open>createTask\<close> with content of 1 to 500 bytes appends a task whose id is
  the current length of the caller's sequence, not completed, created now, with
  \<open>completedAt = 0\<close>, and adds one to the caller's live count; with content of 0 or
  more than 500 bytes it fails with \<open>InvalidContent\<close>. (The increment of the counter
  is checked: the success case is stated for a count below \<open>2^256 - 1\<close>, which is
  every count that fewer than \<open>2^256 - 1\<close> creations can produce.)

  A task keeps the id it was created with, and that id is its creation order. From
  any state, a transaction of any sender leaves every existing slot of every owner in
  place, with its id and its \<open>createdAt\<close>; a slot that is not the one the owner's own
  call names is not changed at all. A sequence grows by exactly one slot on a
  successful \<open>createTask\<close> of its owner and never changes length otherwise, so in a
  state reached from deployment its length is the number of the owner's successful
  creations, and the id of the task at position \<open>i\<close> is \<open>i\<close>, now and after any
  further transactions.
\<close>

theorem createTask_appends_with_stable_ids:
  "(1 \<le> length c \<and> length c \<le> 500 \<and> taskCount s a < MAX_UINT256 \<longrightarrow>
      createTask s a now c
        = Inr (s\<lparr>userTasks := (userTasks s)(a := userTasks s a @
                    [\<lparr>id_task = length (userTasks s a), content = c, completed = False,
                      createdAt = now, completedAt = 0\<rparr>]),
                  taskCount := (taskCount s)(a := taskCount s a + 1)\<rparr>,
               TaskCreated a (length (userTasks s a)) c now))
   \<and> (length c = 0 \<or> 500 < length c \<longrightarrow>
        (\<exists>e \<in> InvalidContent. createTask s a now c = Inl e))
   \<and> (i < length (userTasks (run init txs) b) \<longrightarrow>
        id_task (userTasks (run init txs) b ! i) = i
        \<and> i < length (userTasks (run init (txs @ later)) b)
        \<and> id_task (userTasks (run init (txs @ later)) b ! i) = i
        \<and> createdAt (userTasks (run init (txs @ later)) b ! i)
            = createdAt (userTasks (run init txs) b ! i))
   \<and> (i < length (userTasks s b) \<longrightarrow>
        i < length (userTasks (transact s (sender, t, cl)) b)
        \<and> id_task (userTasks (transact s (sender, t, cl)) b ! i) = id_task (userTasks s b ! i)
        \<and> createdAt (userTasks (transact s (sender, t, cl)) b ! i)
            = createdAt (userTasks s b ! i)
        \<and> (sender \<noteq> b \<or> calledTaskId cl \<noteq> Some i \<longrightarrow>
             userTasks (transact s (sender, t, cl)) b ! i = userTasks s b ! i))
   \<and> length (userTasks (transact s (sender, t, cl)) b)
       = (if sender = b \<and> calledTaskId cl = None \<and> (\<exists>r. invoke s sender t cl = Inr r)
          then Suc (length (userTasks s b)) else length (userTasks s b))
   \<and> length (userTasks (run init txs) b) = creations init b txs"
proof -
  have ok: "1 \<le> length c \<and> length c \<le> 500 \<and> taskCount s a < MAX_UINT256 \<longrightarrow>
      createTask s a now c
        = Inr (s\<lparr>userTasks := (userTasks s)(a := userTasks s a @
                    [\<lparr>id_task = length (userTasks s a), content = c, completed = False,
                      createdAt = now, completedAt = 0\<rparr>]),
                  taskCount := (taskCount s)(a := taskCount s a + 1)\<rparr>,
               TaskCreated a (length (userTasks s a)) c now)"
    by (simp add: createTask_def nonEmptyContent_def Let_def)
  have bad: "length c = 0 \<or> 500 < length c \<longrightarrow>
        (\<exists>e \<in> InvalidContent. createTask s a now c = Inl e)"
    by (auto simp: createTask_def nonEmptyContent_def InvalidContent_def)
  have ids: "i < length (userTasks (run init txs) b) \<longrightarrow>
        id_task (userTasks (run init txs) b ! i) = i
        \<and> i < length (userTasks (run init (txs @ later)) b)
        \<and> id_task (userTasks (run init (txs @ later)) b ! i) = i
        \<and> createdAt (userTasks (run init (txs @ later)) b ! i)
            = createdAt (userTasks (run init txs) b ! i)"
  proof
    assume i: "i < length (userTasks (run init txs) b)"
    from run_slot_frame [OF i, of later]
    have j: "i < length (userTasks (run init (txs @ later)) b)"
      and k: "createdAt (userTasks (run init (txs @ later)) b ! i)
            = createdAt (userTasks (run init txs) b ! i)"
      unfolding run_append by simp_all
    from i j k show "id_task (userTasks (run init txs) b ! i) = i
        \<and> i < length (userTasks (run init (txs @ later)) b)
        \<and> id_task (userTasks (run init (txs @ later)) b ! i) = i
        \<and> createdAt (userTasks (run init (txs @ later)) b ! i)
            = createdAt (userTasks (run init txs) b ! i)"
      by (simp add: run_id_nth)
  qed
  have frame: "i < length (userTasks s b) \<longrightarrow>
        i < length (userTasks (transact s (sender, t, cl)) b)
        \<and> id_task (userTasks (transact s (sender, t, cl)) b ! i) = id_task (userTasks s b ! i)
        \<and> createdAt (userTasks (transact s (sender, t, cl)) b ! i)
            = createdAt (userTasks s b ! i)
        \<and> (sender \<noteq> b \<or> calledTaskId cl \<noteq> Some i \<longrightarrow>
             userTasks (transact s (sender, t, cl)) b ! i = userTasks s b ! i)"
    using transact_slot_frame by blast
  have len: "length (userTasks (transact s (sender, t, cl)) b)
       = (if sender = b \<and> calledTaskId cl = None \<and> (\<exists>r. invoke s sender t cl = Inr r)
          then Suc (length (userTasks s b)) else length (userTasks s b))"
    by (rule transact_length)
  have ord: "length (userTasks (run init txs) b) = creations init b txs"
    using run_length_creations [of init txs b] by (simp add: init_def)
  from ok bad ids frame len ord show ?thesis by blast
qed

theorem createTask_appends_with_stable_ids_witness:
  "(let s = run init [(1, 1, CreateTask ''a'')]
    in taskCount s 1 < MAX_UINT256
       \<and> createTask s 1 5 ''c''
           = Inr (run init [(1, 1, CreateTask ''a''), (1, 5, CreateTask ''c'')],
                  TaskCreated 1 1 ''c'' 5)
       \<and> createTask s 1 5 '''' = Inl ContentEmpty
       \<and> ContentEmpty \<in> InvalidContent
       \<and> 0 < length (userTasks s 1)
       \<and> id_task (userTasks s 1 ! 0) = 0
       \<and> id_task (userTasks (run init ([(1, 1, CreateTask ''a'')] @ [(1, 5, CreateTask ''c'')])) 1 ! 0) = 0)
   \<and> (let s = run init [(1, 1, CreateTask ''a''), (1, 5, CreateTask ''c'')];
          s' = transact s (1, 6, DeleteTask 0)
      in 1 < length (userTasks s 1)
         \<and> calledTaskId (DeleteTask 0) \<noteq> Some 1
         \<and> userTasks s' 1 ! 1 = userTasks s 1 ! 1
         \<and> id_task (userTasks s' 1 ! 1) = 1
         \<and> createdAt (userTasks s' 1 ! 1) = 5
         \<and> id_task (userTasks s' 1 ! 0) = 0
         \<and> createdAt (userTasks s' 1 ! 0) = 1
         \<and> length (userTasks s' 1) = 2
         \<and> length (userTasks s 1)
             = creations init 1 [(1, 1, CreateTask ''a''), (1, 5, CreateTask ''c'')])"
  using createTask_appends_with_stable_ids
          [where c = "''c''" and s = "run init [(1, 1, CreateTask ''a'')]" and a = 1 and now = 5
             and i = 0 and txs = "[(1, 1, CreateTask ''a'')]" and b = 1
             and later = "[(1, 5, CreateTask ''c'')]" and sender = 1 and t = 6
             and cl = "DeleteTask 0"]
        createTask_appends_with_stable_ids
          [where c = "''''" and s = "run init [(1, 1, CreateTask ''a'')]" and a = 1 and now = 5
             and i = 0 and txs = "[(1, 1, CreateTask ''a'')]" and b = 1
             and later = "[(1, 5, CreateTask ''c'')]" and sender = 1 and t = 6
             and cl = "DeleteTask 0"]
        createTask_appends_with_stable_ids
          [where c = "''c''" and s = "run init [(1, 1, CreateTask ''a''), (1, 5, CreateTask ''c'')]"
             and a = 1 and now = 5 and i = 1
             and txs = "[(1, 1, CreateTask ''a''), (1, 5, CreateTask ''c'')]" and b = 1
             and later = "[]" and sender = 1 and t = 6 and cl = "DeleteTask 0"]
        createTask_appends_with_stable_ids
          [where c = "''c''" and s = "run init [(1, 1, CreateTask ''a''), (1, 5, CreateTask ''c'')]"
             and a = 1 and now = 5 and i = 0
             and txs = "[(1, 1, CreateTask ''a''), (1, 5, CreateTask ''c'')]" and b = 1
             and later = "[]" and sender = 1 and t = 6 and cl = "DeleteTask 0"]
  unfolding append.simps run_create run_create_create
  by (auto simp: InvalidContent_def call_defs MAX_UINT256_def init_def)

section \<open>The decrement of the live count\<close>

text \<open>
  Claim C10. The live count never goes below zero. When the caller's count is 0, every
  \<open>deleteTask\<close> fails: with \<open>TaskNotFound\<close>, with \<open>AlreadyDeleted\<close>, or, exactly when
  the slot is in range and has content, with the arithmetic panic of the checked
  decrement; the state is unchanged. A \<open>deleteTask\<close> that succeeds started from a
  positive count and takes one off; one that fails changes nothing. The panic is
  reached from deployment by create, delete, update of the deleted slot, delete.
\<close>

theorem deleteTask_never_underflows:
  "(taskCount s a = 0 \<longrightarrow>
      (deleteTask s a now i = Inl TaskNotFound
       \<or> deleteTask s a now i = Inl AlreadyDeleted
       \<or> deleteTask s a now i = Inl (Panic 0x11))
      \<and> (deleteTask s a now i = Inl (Panic 0x11)
           \<longleftrightarrow> i < length (userTasks s a) \<and> content (userTasks s a ! i) \<noteq> '''')
      \<and> transact s (a, now, DeleteTask i) = s)
   \<and> (deleteTask s a now i = Inr (s', ev) \<longrightarrow>
        0 < taskCount s a \<and> taskCount s' a = taskCount s a - 1)
   \<and> (deleteTask s a now i = Inl e \<longrightarrow> transact s (a, now, DeleteTask i) = s)
   \<and> taskCount (run init [(1, 1, CreateTask ''a''), (1, 2, DeleteTask 0),
                           (1, 3, UpdateTask 0 ''b'')]) 1 = 0
   \<and> deleteTask (run init [(1, 1, CreateTask ''a''), (1, 2, DeleteTask 0),
                            (1, 3, UpdateTask 0 ''b'')]) 1 4 0 = Inl (Panic 0x11)"
proof -
  have z: "taskCount s a = 0 \<longrightarrow>
      (deleteTask s a now i = Inl TaskNotFound
       \<or> deleteTask s a now i = Inl AlreadyDeleted
       \<or> deleteTask s a now i = Inl (Panic 0x11))
      \<and> (deleteTask s a now i = Inl (Panic 0x11)
           \<longleftrightarrow> i < length (userTasks s a) \<and> content (userTasks s a ! i) \<noteq> '''')
      \<and> transact s (a, now, DeleteTask i) = s"
    by (simp add: call_defs)
  have ok: "deleteTask s a now i = Inr (s', ev) \<longrightarrow>
        0 < taskCount s a \<and> taskCount s' a = taskCount s a - 1"
    by (auto simp: call_defs split: if_splits)
  have f: "deleteTask s a now i = Inl e \<longrightarrow> transact s (a, now, DeleteTask i) = s"
    by simp
  have r: "taskCount (run init [(1, 1, CreateTask ''a''), (1, 2, DeleteTask 0),
                           (1, 3, UpdateTask 0 ''b'')]) 1 = 0"
    unfolding run_create_delete_update by simp
  have p: "deleteTask (run init [(1, 1, CreateTask ''a''), (1, 2, DeleteTask 0),
                            (1, 3, UpdateTask 0 ''b'')]) 1 4 0 = Inl (Panic 0x11)"
    unfolding run_create_delete_update by (simp add: call_defs)
  from z ok f r p show ?thesis by blast
qed

theorem deleteTask_never_underflows_witness:
  "(let s = run init [(1, 1, CreateTask ''a''), (1, 2, DeleteTask 0), (1, 3, UpdateTask 0 ''b'')]
    in taskCount s 1 = 0
       \<and> 0 < length (userTasks s 1) \<and> content (userTasks s 1 ! 0) \<noteq> ''''
       \<and> deleteTask s 1 4 0 = Inl (Panic 0x11)
       \<and> transact s (1, 4, DeleteTask 0) = s)
   \<and> (let s = run init [(1, 1, CreateTask ''a'')]
      in deleteTask s 1 2 0
           = Inr (run init [(1, 1, CreateTask ''a''), (1, 2, DeleteTask 0)], TaskDeleted 1 0 2)
         \<and> 0 < taskCount s 1
         \<and> taskCount (run init [(1, 1, CreateTask ''a''), (1, 2, DeleteTask 0)]) 1 = 0)"
  using deleteTask_never_underflows
          [of "run init [(1, 1, CreateTask ''a''), (1, 2, DeleteTask 0), (1, 3, UpdateTask 0 ''b'')]"
              1 4 0 init "TaskDeleted 1 0 4" "Panic 0x11"]
        deleteTask_never_underflows
          [of "run init [(1, 1, CreateTask ''a'')]" 1 2 0
              "run init [(1, 1, CreateTask ''a''), (1, 2, DeleteTask 0)]" "TaskDeleted 1 0 2"
              TaskNotFound]
  unfolding run_create run_create_delete run_create_delete_update
  by (simp add: call_defs)

section \<open>Isolation of owners\<close>

text \<open>
  Identity 2 asks for the count of identity 1 with \<open>getTaskCountForUser\<close>: the answer
  is 0 before identity 1 has created a task and 1 after. The tasks of one identity are
  countable through a call made by another.
\<close>

theorem cross_owner_count_counterexample:
  "ask init 2 (GetTaskCountForUser 1) = Inr (ACount 0)
   \<and> ask (run init [(1, 1, CreateTask ''a'')]) 2 (GetTaskCountForUser 1) = Inr (ACount 1)"
  unfolding run_create by (simp add: init_def getTaskCountForUser_def)

text \<open>
  Claim C3, amended. For distinct identities \<open>A\<close> and \<open>B\<close>: no call made by \<open>B\<close>, and no
  sequence of calls made by identities other than \<open>A\<close>, changes the task sequence or
  the live count of \<open>A\<close>. Everything a call by \<open>B\<close> does depends only on the sequence
  and count of \<open>B\<close>: in two states that agree on them, a mutating call by \<open>B\<close> has the
  same error or event and leaves the same sequence and count of \<open>B\<close>, every query by
  \<open>B\<close> other than the two count lookups by address (\<open>getTaskCountForUser\<close> and the
  getter of \<open>taskCount\<close>) has the same answer, and this is still so after any sequence
  of transactions, of any senders, run from both states. A count lookup for \<open>A\<close> made
  by \<open>B\<close> returns the live count of \<open>A\<close>.
\<close>

theorem owner_isolation:
  assumes "A \<noteq> B"
  shows "userTasks (transact s (B, now, cl)) A = userTasks s A
     \<and> taskCount (transact s (B, now, cl)) A = taskCount s A
     \<and> ((\<forall>tx \<in> set txs. fst tx \<noteq> A) \<longrightarrow>
          userTasks (run s txs) A = userTasks s A \<and> taskCount (run s txs) A = taskCount s A)
     \<and> (userTasks s B = userTasks s' B \<and> taskCount s B = taskCount s' B \<longrightarrow>
          map_sum (\<lambda>e. e) snd (invoke s B now cl) = map_sum (\<lambda>e. e) snd (invoke s' B now cl)
          \<and> ((\<forall>u. q \<noteq> GetTaskCountForUser u \<and> q \<noteq> TaskCountGetter u) \<longrightarrow>
                ask s B q = ask s' B q)
          \<and> userTasks (transact s (B, now, cl)) B = userTasks (transact s' (B, now, cl)) B
          \<and> taskCount (transact s (B, now, cl)) B = taskCount (transact s' (B, now, cl)) B
          \<and> userTasks (run s calls) B = userTasks (run s' calls) B
          \<and> taskCount (run s calls) B = taskCount (run s' calls) B
          \<and> ((\<forall>u. q \<noteq> GetTaskCountForUser u \<and> q \<noteq> TaskCountGetter u) \<longrightarrow>
                ask (run s calls) B q = ask (run s' calls) B q))
     \<and> ask s B (GetTaskCountForUser A) = Inr (ACount (taskCount s A))
     \<and> ask s B (TaskCountGetter A) = Inr (ACount (taskCount s A))"
proof -
  from assms have "fst (B, now, cl) \<noteq> A" by simp
  from transact_other [OF this]
  have one: "userTasks (transact s (B, now, cl)) A = userTasks s A
     \<and> taskCount (transact s (B, now, cl)) A = taskCount s A" .
  have many: "(\<forall>tx \<in> set txs. fst tx \<noteq> A) \<longrightarrow>
          userTasks (run s txs) A = userTasks s A \<and> taskCount (run s txs) A = taskCount s A"
    using run_other by blast
  have own: "map_sum (\<lambda>e. e) snd (invoke s B now cl) = map_sum (\<lambda>e. e) snd (invoke s' B now cl)
          \<and> ((\<forall>u. q \<noteq> GetTaskCountForUser u \<and> q \<noteq> TaskCountGetter u) \<longrightarrow>
                ask s B q = ask s' B q)
          \<and> userTasks (transact s (B, now, cl)) B = userTasks (transact s' (B, now, cl)) B
          \<and> taskCount (transact s (B, now, cl)) B = taskCount (transact s' (B, now, cl)) B
          \<and> userTasks (run s calls) B = userTasks (run s' calls) B
          \<and> taskCount (run s calls) B = taskCount (run s' calls) B
          \<and> ((\<forall>u. q \<noteq> GetTaskCountForUser u \<and> q \<noteq> TaskCountGetter u) \<longrightarrow>
                ask (run s calls) B q = ask (run s' calls) B q)"
    if agree: "userTasks s B = userTasks s' B" "taskCount s B = taskCount s' B"
  proof -
    note after = run_agree [OF agree, of calls]
    from invoke_own [OF agree] ask_own [OF agree] transact_agree [OF agree] after
      ask_own [OF after [THEN conjunct1] after [THEN conjunct2]]
    show ?thesis by blast
  qed
  have cnt: "ask s B (GetTaskCountForUser A) = Inr (ACount (taskCount s A))
     \<and> ask s B (TaskCountGetter A) = Inr (ACount (taskCount s A))"
    by (simp add: getTaskCountForUser_def)
  from one many own cnt show ?thesis by blast
qed

theorem owner_isolation_witness:
  "(1 :: address) \<noteq> 2
   \<and> (let s = run init [(1, 1, CreateTask ''a'')]
      in userTasks (transact s (2, 2, CreateTask ''z'')) 1 = userTasks s 1
         \<and> taskCount (transact s (2, 2, CreateTask ''z'')) 1 = taskCount s 1
         \<and> fst (2 :: address, 2 :: nat, DeleteTask 0) \<noteq> 1
         \<and> userTasks (run s [(2, 2, DeleteTask 0)]) 1 = userTasks s 1
         \<and> taskCount (run s [(2, 2, DeleteTask 0)]) 1 = taskCount s 1
         \<and> userTasks s 2 = userTasks init 2 \<and> taskCount s 2 = taskCount init 2
         \<and> map_sum (\<lambda>e. e) snd (invoke s 2 2 (CreateTask ''z''))
             = map_sum (\<lambda>e. e) snd (invoke init 2 2 (CreateTask ''z''))
         \<and> ask s 2 GetAllTasks = ask init 2 GetAllTasks
         \<and> ask s 2 GetAllTasks = Inr (ATasks [])
         \<and> userTasks (transact s (2, 2, CreateTask ''z'')) 2
             = userTasks (transact init (2, 2, CreateTask ''z'')) 2
         \<and> taskCount (transact s (2, 2, CreateTask ''z'')) 2
             = taskCount (transact init (2, 2, CreateTask ''z'')) 2
         \<and> ask (run s [(2, 2, CreateTask ''z''), (1, 3, CreateTask ''y'')]) 2 GetAllTasks
             = ask (run init [(2, 2, CreateTask ''z''), (1, 3, CreateTask ''y'')]) 2 GetAllTasks
         \<and> ask (run s [(2, 2, CreateTask ''z''), (1, 3, CreateTask ''y'')]) 2 GetAllTasks
             = Inr (ATasks [\<lparr>id_task = 0, content = ''z'', completed = False, createdAt = 2,
                             completedAt = 0\<rparr>])
         \<and> ask s 2 (GetTaskCountForUser 1) = Inr (ACount 1)
         \<and> ask s 2 (TaskCountGetter 1) = Inr (ACount 1))"
proof -
  have ne: "(1 :: address) \<noteq> 2" by simp
  show ?thesis
    using ne owner_isolation [OF ne, of "run init [(1, 1, CreateTask ''a'')]" 2 "CreateTask ''z''"
        "[(2, 2, DeleteTask 0)]" init GetAllTasks
        "[(2, 2, CreateTask ''z''), (1, 3, CreateTask ''y'')]"]
    unfolding run_create
    by (simp add: init_def getAllTasks_def run_def call_defs MAX_UINT256_def)
qed

section \<open>Deleted slots\<close>

text \<open>
  After create and delete by identity 1, slot 0 has empty content, and it is the one
  element of the result of \<open>getAllTasks\<close>; \<open>getTask(0)\<close> returns it too.
\<close>

theorem deleted_task_in_getAllTasks_counterexample:
  "content (userTasks (run init [(1, 1, CreateTask ''a''), (1, 2, DeleteTask 0)]) 1 ! 0) = ''''
   \<and> getAllTasks (run init [(1, 1, CreateTask ''a''), (1, 2, DeleteTask 0)]) 1
       = [\<lparr>id_task = 0, content = '''', completed = True, createdAt = 1, completedAt = 0\<rparr>]
   \<and> ask (run init [(1, 1, CreateTask ''a''), (1, 2, DeleteTask 0)]) 1 (GetTask 0)
       = Inr (ATask \<lparr>id_task = 0, content = '''', completed = True, createdAt = 1,
                     completedAt = 0\<rparr>)"
  unfolding run_create_delete by (simp add: getAllTasks_def getTask_def validTaskId_def)

text \<open>
  Claim C2, amended. In every state reached from deployment, a slot of the caller's
  sequence whose content is the empty string cannot be deleted (\<open>deleteTask\<close> fails
  with \<open>AlreadyDeleted\<close>), and no task with its id, and no task with empty content,
  is in the result of \<open>getCompletedTasks\<close> or \<open>getPendingTasks\<close>. \<open>getAllTasks\<close> and
  \<open>getTask\<close> return the raw slot, deleted or not.
\<close>

theorem deleted_slot_excluded:
  assumes "s = run init txs" and "i < length (userTasks s a)"
    and "content (userTasks s a ! i) = ''''"
  shows "deleteTask s a now i = Inl AlreadyDeleted
     \<and> (\<exists>ys. getCompletedTasks s a = Inr ys
           \<and> (\<forall>t \<in> set ys. id_task t \<noteq> i \<and> content t \<noteq> ''''))
     \<and> (\<exists>zs. getPendingTasks s a = Inr zs
           \<and> (\<forall>t \<in> set zs. id_task t \<noteq> i \<and> content t \<noteq> ''''))
     \<and> userTasks s a ! i \<in> set (getAllTasks s a)
     \<and> getTask s a i = Inr (userTasks s a ! i)"
proof -
  have d: "deleteTask s a now i = Inl AlreadyDeleted"
    using assms(2,3) by (simp add: deleteTask_def validTaskId_def)
  have f: "id_task t \<noteq> i \<and> content t \<noteq> ''''"
    if "t \<in> set (filter P (userTasks s a))" and "\<And>u. P u \<Longrightarrow> content u \<noteq> ''''" for t P
  proof -
    from that(1) have "userTasks s a ! id_task t = t \<and> P t"
      unfolding assms(1) by (rule filter_ids [THEN conjunct2])
    with that(2) assms(3) show ?thesis by auto
  qed
  have c: "\<exists>ys. getCompletedTasks s a = Inr ys
           \<and> (\<forall>t \<in> set ys. id_task t \<noteq> i \<and> content t \<noteq> '''')"
    unfolding getCompletedTasks_filter using f [of _ isCompleted]
    by (simp add: isCompleted_def)
  have p: "\<exists>zs. getPendingTasks s a = Inr zs
           \<and> (\<forall>t \<in> set zs. id_task t \<noteq> i \<and> content t \<noteq> '''')"
    unfolding getPendingTasks_filter using f [of _ isPending]
    by (simp add: isPending_def)
  have g: "userTasks s a ! i \<in> set (getAllTasks s a)
     \<and> getTask s a i = Inr (userTasks s a ! i)"
    using assms(2) by (simp add: getAllTasks_def getTask_def validTaskId_def)
  from d c p g show ?thesis by blast
qed

theorem deleted_slot_excluded_witness:
  "(let s = run init [(1, 1, CreateTask ''a''), (1, 5, CreateTask ''c''), (1, 6, DeleteTask 0)]
    in 0 < length (userTasks s 1) \<and> content (userTasks s 1 ! 0) = ''''
       \<and> deleteTask s 1 7 0 = Inl AlreadyDeleted
       \<and> getCompletedTasks s 1 = Inr []
       \<and> getPendingTasks s 1 = Inr [\<lparr>id_task = 1, content = ''c'', completed = False,
                                       createdAt = 5, completedAt = 0\<rparr>]
       \<and> userTasks s 1 ! 0 \<in> set (getAllTasks s 1)
       \<and> getTask s 1 0 = Inr (userTasks s 1 ! 0))"
  using deleted_slot_excluded
    [of "run init [(1, 1, CreateTask ''a''), (1, 5, CreateTask ''c''), (1, 6, DeleteTask 0)]"
        "[(1, 1, CreateTask ''a''), (1, 5, CreateTask ''c''), (1, 6, DeleteTask 0)]" 0 1 7]
  unfolding run_two_delete
  by (simp add: getCompletedTasks_filter getPendingTasks_filter isCompleted_def isPending_def
        getAllTasks_def getTask_def validTaskId_def deleteTask_def)

section \<open>Updating a deleted slot\<close>

text \<open>
  \<open>validTaskId\<close> lets \<open>updateTask\<close> write new content into a slot that \<open>deleteTask\<close>
  has emptied, and \<open>updateTask\<close> does not touch the live count. The three theorems
  below evaluate the contract on one history of identity 1: \<open>createTask("a")\<close> at time
  1, \<open>deleteTask(0)\<close> at time 2, \<open>updateTask(0, "b")\<close> at time 3.
\<close>

text \<open>
  Claim C1 says that \<open>getActiveTaskCount\<close> is the number of tasks with non-empty
  content after every sequence of calls. After this history it returns 0, and one task
  of the sequence has non-empty content.
\<close>

theorem live_count_after_update_of_deleted_slot:
  "getActiveTaskCount
      (run init [(1, 1, CreateTask ''a''), (1, 2, DeleteTask 0), (1, 3, UpdateTask 0 ''b'')]) 1 = 0
   \<and> length (filter (\<lambda>t. content t \<noteq> '''')
        (getAllTasks
          (run init [(1, 1, CreateTask ''a''), (1, 2, DeleteTask 0), (1, 3, UpdateTask 0 ''b'')]) 1))
       = 1"
  unfolding run_create_delete_update by (simp add: getActiveTaskCount_def getAllTasks_def)

text \<open>
  Claim C5 says that after a successful \<open>deleteTask(id)\<close> the id is never again in the
  result of \<open>getCompletedTasks\<close> or \<open>getPendingTasks\<close>, and that \<open>deleteTask\<close> on an
  in-range slot with content succeeds and takes one off the count. Here
  \<open>deleteTask(0)\<close> succeeds at time 2; after the update, \<open>getCompletedTasks\<close> returns
  the task with id 0, and \<open>deleteTask(0)\<close> on that slot, in range and with content
  \<open>"b"\<close>, reverts with the arithmetic panic.
\<close>

theorem deleted_id_returns_after_update:
  "deleteTask (run init [(1, 1, CreateTask ''a'')]) 1 2 0
     = Inr (run init [(1, 1, CreateTask ''a''), (1, 2, DeleteTask 0)], TaskDeleted 1 0 2)
   \<and> getCompletedTasks
        (run init [(1, 1, CreateTask ''a''), (1, 2, DeleteTask 0), (1, 3, UpdateTask 0 ''b'')]) 1
       = Inr [\<lparr>id_task = 0, content = ''b'', completed = True, createdAt = 1, completedAt = 0\<rparr>]
   \<and> deleteTask
        (run init [(1, 1, CreateTask ''a''), (1, 2, DeleteTask 0), (1, 3, UpdateTask 0 ''b'')])
        1 4 0
       = Inl (Panic 0x11)"
  unfolding run_create run_create_delete run_create_delete_update
  by (simp add: getCompletedTasks_filter isCompleted_def call_defs)

text \<open>
  Claim C6 says that for every live task \<open>completedAt > 0\<close> exactly when \<open>completed\<close>
  holds, after any sequence of operations. After this history, whose timestamps are
  all positive, task 0 is live and completed, and its \<open>completedAt\<close> is 0.
\<close>

theorem completed_without_completedAt:
  "content (userTasks
      (run init [(1, 1, CreateTask ''a''), (1, 2, DeleteTask 0), (1, 3, UpdateTask 0 ''b'')]) 1 ! 0)
     = ''b''
   \<and> completed (userTasks
      (run init [(1, 1, CreateTask ''a''), (1, 2, DeleteTask 0), (1, 3, UpdateTask 0 ''b'')]) 1 ! 0)
     = True
   \<and> completedAt (userTasks
      (run init [(1, 1, CreateTask ''a''), (1, 2, DeleteTask 0), (1, 3, UpdateTask 0 ''b'')]) 1 ! 0)
     = 0"
  unfolding run_create_delete_update by simp

end
